theory Spec2Isabelle
  imports Main
begin

section \<open>The ROM source generator \<open>scripts/build_basic_rom.py\<close>\<close>

text \<open>
  The script reads two hexadecimal dumps, validates each, concatenates them, cuts the
  result into literals of 1024 characters and writes a Solidity source file built from a
  fixed template. The development below embeds the script function by function and
  proves the properties its specification states.
\<close>

subsection \<open>Python strings\<close>

text \<open>
  A Python \<open>str\<close> is a sequence of Unicode code points; \<open>len\<close> counts code points.
  A code point is a natural number here, so that the characters of the template beyond
  ASCII (U+2014, U+2011, U+00A0) and the Unicode white space that \<open>str.strip\<close> removes are
  what they are in Python. \<open>lit\<close> turns an ASCII literal into such a string.
\<close>

type_synonym str = "nat list"

definition lit :: "string \<Rightarrow> str" where
  "lit cs = map of_char cs"

text \<open>
  \<open>str.isspace\<close> on one code point: the characters that \<open>str.strip()\<close> without argument
  removes (CPython's \<open>Py_UNICODE_ISSPACE\<close>).
\<close>

definition isspace :: "nat \<Rightarrow> bool" where
  "isspace c \<longleftrightarrow>
     (9 \<le> c \<and> c \<le> 13) \<or> (28 \<le> c \<and> c \<le> 32) \<or> c = 133 \<or> c = 160 \<or> c = 5760 \<or>
     (8192 \<le> c \<and> c \<le> 8202) \<or> c = 8232 \<or> c = 8233 \<or> c = 8239 \<or> c = 8287 \<or> c = 12288"

text \<open>\<open>s.strip()\<close>: the leading and the trailing run of white space are removed.\<close>

definition strip :: "str \<Rightarrow> str" where
  "strip s = rev (dropWhile isspace (rev (dropWhile isspace s)))"

text \<open>
  \<open>s.replace(old, new)\<close> for a pattern \<open>old\<close> of one character: every occurrence of
  the character is replaced, everything else is kept in place.
\<close>

definition replace_char :: "nat \<Rightarrow> str \<Rightarrow> str \<Rightarrow> str" where
  "replace_char old new s = concat (map (\<lambda>c. if c = old then new else [c]) s)"

text \<open>
  \<open>s.lower()\<close>. The script lowers a string only after the character check has passed, so
  the string is ASCII and CPython maps each character through \<open>Py_TOLOWER\<close>: the letters
  \<open>A\<close> to \<open>Z\<close> move to \<open>a\<close> to \<open>z\<close>. Code points beyond ASCII, which never reach this call,
  are left as they are.
\<close>

definition lower_cp :: "nat \<Rightarrow> nat" where
  "lower_cp c = (if 65 \<le> c \<and> c \<le> 90 then c + 32 else c)"

definition lower :: "str \<Rightarrow> str" where
  "lower s = map lower_cp s"

text \<open>\<open>sep.join(xs)\<close>.\<close>

fun join :: "str \<Rightarrow> str list \<Rightarrow> str" where
  "join sep [] = []"
| "join sep [x] = x"
| "join sep (x # y # ys) = x @ sep @ join sep (y # ys)"

text \<open>\<open>str(n)\<close> for a length: the decimal digits of a natural number.\<close>

function str_nat :: "nat \<Rightarrow> str" where
  "str_nat n = (if n < 10 then [48 + n] else str_nat (n div 10) @ [48 + n mod 10])"
  by pat_completeness auto
termination
  by (relation "measure (\<lambda>n. n)") auto

declare str_nat.simps [simp del]

subsection \<open>Files, output and errors\<close>

text \<open>
  The file system maps a path to the decoded characters of the file. A path without a
  file cannot be read. \<open>stdout\<close> is the text printed so far. Writing and printing always
  succeed here: a failure of the operating system while the output is written is outside
  the model.
\<close>

type_synonym path = str

record world =
  files :: "path \<rightharpoonup> str"
  stdout :: str

datatype error = OSError path | ValueError str | AssertionError str

text \<open>
  \<open>Path.read_text()\<close> opens the file in text mode with universal newlines: a carriage
  return followed by a newline, and a carriage return alone, each reach the program as
  one newline. \<open>translate_newlines pendingcr\<close> reads the characters in order; \<open>pendingcr\<close>
  says that the character before was a carriage return, whose newline has been handed out
  already, so a newline that follows it is dropped.
\<close>

fun translate_newlines :: "bool \<Rightarrow> str \<Rightarrow> str" where
  "translate_newlines pendingcr [] = []"
| "translate_newlines pendingcr (c # cs) =
     (if c = 13 then 10 # translate_newlines True cs
      else if c = 10 \<and> pendingcr then translate_newlines False cs
      else c # translate_newlines False cs)"

definition universal_newlines :: "str \<Rightarrow> str" where
  "universal_newlines raw = translate_newlines False raw"

definition read_text :: "world \<Rightarrow> path \<Rightarrow> error + str" where
  "read_text w p =
     (case files w p of None \<Rightarrow> Inl (OSError p) | Some raw \<Rightarrow> Inr (universal_newlines raw))"

text \<open>
  \<open>Path.write_text\<close> stores the text it is given; on POSIX a newline is written as it
  is.
\<close>

definition write_text :: "world \<Rightarrow> path \<Rightarrow> str \<Rightarrow> world" where
  "write_text w p t = w\<lparr>files := (files w)(p \<mapsto> t)\<rparr>"

definition print :: "world \<Rightarrow> str \<Rightarrow> world" where
  "print w t = w\<lparr>stdout := stdout w @ t @ [10]\<rparr>"

subsection \<open>Constants of the script\<close>

text \<open>The two entries of \<open>PART_FILES\<close>, in order.\<close>

definition rom_part1 :: path where
  "rom_part1 = lit ''rom/eh_hex_part1.txt''"

definition rom_part2 :: path where
  "rom_part2 = lit ''rom/eh_hex_part2.txt''"

definition PART_FILES :: "path list" where
  "PART_FILES = [rom_part1, rom_part2]"

definition OUTPUT_SOL :: path where
  "OUTPUT_SOL = lit ''src/BasicRom.sol''"

definition CHUNK_HEX_LEN :: nat where
  "CHUNK_HEX_LEN = 1024"

subsection \<open>\<open>read_and_validate\<close>\<close>

text \<open>
  \<open>normalized\<close> is what the script applies to the text it has read, to bind \<open>data\<close>:
  \<open>text.strip().replace("\n", "")\<close>. The two messages are the f-strings of the two
  \<open>ValueError\<close>s, with the path as \<open>str(path)\<close> prints it.
\<close>

definition normalized :: "str \<Rightarrow> str" where
  "normalized text = replace_char 10 [] (strip text)"

definition hexdigits :: str where
  "hexdigits = lit ''0123456789abcdefABCDEF''"

definition length_message :: "path \<Rightarrow> nat \<Rightarrow> str" where
  "length_message p n = p @ lit '' is '' @ str_nat n @ lit '' chars, expected 16384''"

definition invalid_message :: "path \<Rightarrow> str" where
  "invalid_message p = p @ lit '' contains invalid hex''"

definition read_and_validate :: "world \<Rightarrow> path \<Rightarrow> error + str" where
  "read_and_validate w p =
     (case read_text w p of
        Inl e \<Rightarrow> Inl e
      | Inr text \<Rightarrow>
          (let data = normalized text in
           if length data \<noteq> 16384 then Inl (ValueError (length_message p (length data)))
           else if 0 < length data mod 2 \<or> list_ex (\<lambda>c. c \<notin> set hexdigits) data
             then Inl (ValueError (invalid_message p))
           else Inr (lower data)))"

subsection \<open>\<open>textwrap.wrap\<close> on one long word\<close>

text \<open>
  \<open>textwrap.wrap(text, width)\<close> of the standard library, for a text that holds no white
  space and no hyphen, which is all \<open>main\<close> passes to it (the text has passed the
  character check). For such a text the word splitter yields the text as one chunk, or no
  chunk when the text is empty; a chunk that fits the width becomes one line; a longer one
  is broken by \<open>_handle_long_word\<close>, which puts its first \<open>width\<close> characters on the line
  and leaves the rest for the following lines. A width of zero raises \<open>ValueError\<close>.
\<close>

function wrap_word :: "nat \<Rightarrow> str \<Rightarrow> str list" where
  "wrap_word width chunk =
     (if chunk = [] then []
      else if length chunk \<le> width \<or> width = 0 then [chunk]
      else take width chunk # wrap_word width (drop width chunk))"
  by pat_completeness auto
termination
  by (relation "measure (\<lambda>(width, chunk). length chunk)") auto

declare wrap_word.simps [simp del]

definition wrap :: "str \<Rightarrow> nat \<Rightarrow> error + str list" where
  "wrap text width =
     (if width = 0 then Inl (ValueError (lit ''invalid width 0 (must be > 0)''))
      else Inr (wrap_word width text))"

subsection \<open>\<open>main\<close>\<close>

text \<open>
  The list comprehension over \<open>PART_FILES\<close>: the parts are read and validated in order,
  and the first failure ends the run.
\<close>

fun read_parts :: "world \<Rightarrow> path list \<Rightarrow> error + str list" where
  "read_parts w [] = Inr []"
| "read_parts w (p # ps) =
     (case read_and_validate w p of
        Inl e \<Rightarrow> Inl e
      | Inr d \<Rightarrow> (case read_parts w ps of Inl e \<Rightarrow> Inl e | Inr ds \<Rightarrow> Inr (d # ds)))"

definition hex_literal :: "str \<Rightarrow> str" where
  "hex_literal chunk = lit ''hex'' @ [34] @ chunk @ [34]"

text \<open>The template before and after the place of \<open>{hex_literals}\<close>.\<close>

definition sol_head :: str where
  "sol_head =
     lit ''// SPDX-License-Identifier: MIT'' @ [10] @
     lit ''pragma solidity ^0.8.20;'' @ [10] @
     [10] @
     lit ''/// @title BasicRom '' @ [8212] @ lit '' EhBASIC v2.22 ROM (16'' @ [160] @
       lit ''KiB)'' @ [10] @
     lit ''/// @notice Deployed bytecode *is* the ROM image. Auto'' @ [8209] @
       lit ''generated '' @ [8212] @ lit '' DO NOT EDIT MANUALLY.'' @ [10] @
     lit ''///          Regenerate with `python scripts/build_basic_rom.py` if needed.'' @ [10] @
     lit ''contract BasicRom {'' @ [10] @
     lit ''    constructor() {'' @ [10] @
     lit ''        bytes memory rom = ''"

definition sol_tail :: str where
  "sol_tail =
     lit '';'' @ [10] @
     lit ''        assembly {'' @ [10] @
     lit ''            return(add(rom, 0x20), mload(rom))'' @ [10] @
     lit ''        }'' @ [10] @
     lit ''    }'' @ [10] @
     lit ''}'' @ [10]"

definition sol_source :: "str list \<Rightarrow> str" where
  "sol_source chunks = sol_head @ join (lit '' '') (map hex_literal chunks) @ sol_tail"

text \<open>
  The text of the last line's f-string: its braces are doubled, so each pair stands for
  one brace and nothing is substituted.
\<close>

definition generated_message :: str where
  "generated_message = lit ''Generated {OUTPUT_SOL} ({len(combined) // 2} bytes)''"

text \<open>
  \<open>main\<close> returns how the run ended, an exception or a normal return, and the world it
  leaves behind.
\<close>

definition main :: "world \<Rightarrow> (error + unit) \<times> world" where
  "main w =
     (case read_parts w PART_FILES of
        Inl e \<Rightarrow> (Inl e, w)
      | Inr parts \<Rightarrow>
          (let combined = join [] parts in
           if length combined \<noteq> 32768
             then (Inl (AssertionError (lit ''Combined ROM hex should be 32768 chars (16 KiB)'')), w)
           else
             (case wrap combined CHUNK_HEX_LEN of
                Inl e \<Rightarrow> (Inl e, w)
              | Inr chunks \<Rightarrow>
                  (let w1 = write_text w OUTPUT_SOL (sol_source chunks);
                       w2 = print w1 generated_message
                   in (Inr (), w2)))))"

subsection \<open>Notions of the specification and sample inputs\<close>

text \<open>
  The normalization as the specification words it: every white space character is
  removed, wherever it stands.
\<close>

definition spec_normalized :: "str \<Rightarrow> str" where
  "spec_normalized text = filter (\<lambda>c. \<not> isspace c) text"

text \<open>
  The partition of a string into consecutive substrings of length \<open>n\<close>, left to right:
  the \<open>i\<close>-th one starts at index \<open>i * n\<close>.
\<close>

definition slices :: "nat \<Rightarrow> str \<Rightarrow> str list" where
  "slices n s = map (\<lambda>i. take n (drop (i * n) s)) [0..<length s div n]"

text \<open>
  The hex literal tokens of a source text, in the order in which they stand: a token
  opens with \<open>hex"\<close> and runs to the next double quote (code point 34); the list holds the
  characters between the quotes of each token.
\<close>

function hex_tokens :: "str \<Rightarrow> str list" where
  "hex_tokens [] = []"
| "hex_tokens (c # cs) =
     (if take 4 (c # cs) = [104, 101, 120, 34]
      then takeWhile (\<lambda>d. d \<noteq> 34) (drop 3 cs)
             # hex_tokens (dropWhile (\<lambda>d. d \<noteq> 34) (drop 3 cs))
      else hex_tokens cs)"
  by pat_completeness auto
termination
proof (relation "measure length")
  show "wf (measure length)" by simp
next
  fix c :: nat and cs :: str
  have "length (dropWhile (\<lambda>d. d \<noteq> 34) (drop 3 cs)) \<le> length (drop 3 cs)"
    by (rule length_dropWhile_le)
  then show "(dropWhile (\<lambda>d. d \<noteq> 34) (drop 3 cs), c # cs) \<in> measure length"
    by simp
next
  fix c :: nat and cs :: str
  show "(cs, c # cs) \<in> measure length" by simp
qed

declare hex_tokens.simps [simp del]

text \<open>
  Two texts differ only in the letter case of their hexadecimal characters: they have the
  same length, and at each index they hold the same character or two hexadecimal digits
  with the same lower-case form.
\<close>

definition case_variant :: "str \<Rightarrow> str \<Rightarrow> bool" where
  "case_variant s t =
     list_all2 (\<lambda>a b. a = b \<or> (a \<in> set hexdigits \<and> b \<in> set hexdigits \<and> lower_cp a = lower_cp b)) s t"

text \<open>
  A world that holds the two input files and nothing else, with nothing printed. In the
  sample inputs below, the code points are 48 and 49 and 50 for the digits \<open>0\<close>, \<open>1\<close>
  and \<open>2\<close>, 65 and 70 for \<open>A\<close> and \<open>F\<close>, 97 and 102 for \<open>a\<close> and \<open>f\<close>, 103 for
  \<open>g\<close>, 32 for the space, 9 for the tab, 10 for the newline and 13 for the carriage
  return.
\<close>

definition rom_world :: "str \<Rightarrow> str \<Rightarrow> world" where
  "rom_world a b = \<lparr>files = [rom_part1 \<mapsto> a, rom_part2 \<mapsto> b], stdout = []\<rparr>"

text \<open>\<open>s * n\<close>: the string \<open>s\<close> repeated \<open>n\<close> times.\<close>

definition repeated :: "str \<Rightarrow> nat \<Rightarrow> str" where
  "repeated s n = concat (replicate n s)"

text \<open>
  The scenario of the specification: the first fragment is \<open>"00"\<close> repeated 8192 times,
  the second is \<open>"ff"\<close> repeated 8192 times.
\<close>

definition scenario_world :: world where
  "scenario_world = rom_world (repeated (lit ''00'') 8192) (repeated (lit ''ff'') 8192)"

section \<open>Auxiliary facts\<close>

subsection \<open>Characters and white space\<close>

lemma hexdigits_iff:
  "c \<in> set hexdigits \<longleftrightarrow> (48 \<le> c \<and> c \<le> 57) \<or> (65 \<le> c \<and> c \<le> 70) \<or> (97 \<le> c \<and> c \<le> 102)"
  unfolding hexdigits_def lit_def by simp arith

lemma hex_not_space: "c \<in> set hexdigits \<Longrightarrow> \<not> isspace c"
  by (auto simp: hexdigits_iff isspace_def)

lemma isspace_nl: "isspace 10"
  by (simp add: isspace_def)

lemma not_space_not_nl: "\<not> isspace c \<Longrightarrow> c \<noteq> 10"
  by (auto simp: isspace_def)

lemma lower_cp_hex: "c \<in> set hexdigits \<Longrightarrow> lower_cp c \<in> set (lit ''0123456789abcdef'')"
  unfolding hexdigits_iff lower_cp_def lit_def by simp arith

lemma lower_replicate: "lower (replicate n c) = replicate n (lower_cp c)"
  by (simp add: lower_def)

subsection \<open>\<open>strip\<close>, \<open>replace\<close> and the normalized text\<close>

lemma replace_char_Nil: "replace_char old [] s = filter (\<lambda>c. c \<noteq> old) s"
  by (induction s) (simp_all add: replace_char_def)

lemma strip_Nil: "strip [] = []"
  by (simp add: strip_def)

lemma dropWhile_hd: "s \<noteq> [] \<Longrightarrow> \<not> P (hd s) \<Longrightarrow> dropWhile P s = s"
  by (cases s) simp_all

lemma strip_core:
  assumes "s \<noteq> []" "\<not> isspace (hd s)" "\<not> isspace (last s)"
  shows "strip s = s"
proof -
  have "dropWhile isspace s = s" using assms by (simp add: dropWhile_hd)
  moreover have "dropWhile isspace (rev s) = rev s"
    using assms by (intro dropWhile_hd) (simp_all add: hd_rev)
  ultimately show ?thesis by (simp add: strip_def)
qed

lemma strip_pad:
  assumes "list_all isspace u" "list_all isspace v" "\<not> isspace x" "\<not> isspace y"
  shows "strip (u @ x # m @ y # v) = x # m @ [y]"
proof -
  have a: "dropWhile isspace (u @ x # m @ y # v) = x # m @ y # v"
    using assms by (simp add: dropWhile_append3 list_all_iff)
  have "rev (x # m @ y # v) = rev v @ y # rev m @ [x]" by simp
  moreover have "dropWhile isspace (rev v @ y # rev m @ [x]) = y # rev m @ [x]"
    using assms by (simp add: dropWhile_append3 list_all_iff)
  ultimately show ?thesis unfolding strip_def a by simp
qed

lemma strip_pad_single:
  assumes "list_all isspace u" "list_all isspace v" "\<not> isspace x"
  shows "strip (u @ x # v) = [x]"
proof -
  have a: "dropWhile isspace (u @ x # v) = x # v"
    using assms by (simp add: dropWhile_append3 list_all_iff)
  have "dropWhile isspace (rev v @ [x]) = [x]"
    using assms by (simp add: dropWhile_append3 list_all_iff)
  then show ?thesis unfolding strip_def a by simp
qed

lemma set_strip: "set (strip s) \<subseteq> set s"
proof -
  have "set (strip s) \<subseteq> set (rev (dropWhile isspace s))"
    unfolding strip_def set_rev by (auto dest: set_dropWhileD)
  also have "\<dots> \<subseteq> set s"
    by (auto dest: set_dropWhileD)
  finally show ?thesis .
qed

lemma strip_all_space:
  assumes "list_all isspace u"
  shows "strip u = []"
proof -
  have d: "dropWhile isspace u = []"
    using assms by (induction u) simp_all
  show ?thesis unfolding strip_def d by simp
qed

lemma normalized_nonspace:
  assumes "list_all (\<lambda>c. \<not> isspace c) s"
  shows "normalized s = s"
proof (cases "s = []")
  case True
  then show ?thesis by (simp add: normalized_def strip_Nil replace_char_Nil)
next
  case False
  then have "hd s \<in> set s" "last s \<in> set s" by simp_all
  with assms have "\<not> isspace (hd s)" "\<not> isspace (last s)"
    by (simp_all add: list_all_iff)
  with False have "strip s = s" by (rule strip_core)
  moreover have "filter (\<lambda>c. c \<noteq> 10) s = s"
    using assms by (auto simp: list_all_iff filter_id_conv dest: not_space_not_nl)
  ultimately show ?thesis by (simp add: normalized_def replace_char_Nil)
qed

lemma normalized_replicate: "\<not> isspace c \<Longrightarrow> normalized (replicate n c) = replicate n c"
  by (rule normalized_nonspace) (simp add: list_all_iff)

subsection \<open>Universal newlines\<close>

lemma translate_newlines_id: "13 \<notin> set t \<Longrightarrow> translate_newlines False t = t"
  by (induction t) simp_all

lemma universal_newlines_id: "13 \<notin> set t \<Longrightarrow> universal_newlines t = t"
  by (simp add: universal_newlines_def translate_newlines_id)

lemma translate_newlines_no_cr: "13 \<notin> set (translate_newlines f t)"
  by (induction t arbitrary: f) simp_all

lemma translate_newlines_space:
  "list_all isspace u \<Longrightarrow> list_all isspace (translate_newlines f u)"
  by (induction u arbitrary: f) (simp_all add: isspace_nl)

lemma translate_newlines_append:
  "x \<noteq> 10 \<Longrightarrow> x \<noteq> 13 \<Longrightarrow>
   translate_newlines f (u @ x # r) = translate_newlines f u @ x # translate_newlines False r"
  by (induction u arbitrary: f) simp_all

lemma filter_translate_newlines:
  "filter (\<lambda>c. c \<noteq> 10) (translate_newlines f m) = filter (\<lambda>c. c \<noteq> 10 \<and> c \<noteq> 13) m"
  by (induction m arbitrary: f) simp_all

lemma read_text_files:
  "files w p = Some t \<Longrightarrow> 13 \<notin> set t \<Longrightarrow> read_text w p = Inr t"
  by (simp add: read_text_def universal_newlines_id)

subsection \<open>Paths and messages\<close>

lemma PART_FILES_distinct: "rom_part1 \<noteq> rom_part2"
  by (simp add: rom_part1_def rom_part2_def lit_def)

lemma OUTPUT_SOL_not_part: "OUTPUT_SOL \<noteq> rom_part1" "OUTPUT_SOL \<noteq> rom_part2"
  by (simp_all add: rom_part1_def rom_part2_def OUTPUT_SOL_def lit_def)

lemma files_rom_world:
  "files (rom_world a b) rom_part1 = Some a"
  "files (rom_world a b) rom_part2 = Some b"
  using PART_FILES_distinct by (simp_all add: rom_world_def)

lemma read_text_rom_world:
  "13 \<notin> set a \<Longrightarrow> read_text (rom_world a b) rom_part1 = Inr a"
  "13 \<notin> set b \<Longrightarrow> read_text (rom_world a b) rom_part2 = Inr b"
  by (simp_all add: read_text_files files_rom_world)

lemma str_nat_16383: "str_nat 16383 = lit ''16383''"
  by (simp add: str_nat.simps lit_def)

lemma str_nat_16385: "str_nat 16385 = lit ''16385''"
  by (simp add: str_nat.simps lit_def)

lemma length_message_16383:
  "length_message rom_part1 16383 = lit ''rom/eh_hex_part1.txt is 16383 chars, expected 16384''"
  "length_message rom_part2 16383 = lit ''rom/eh_hex_part2.txt is 16383 chars, expected 16384''"
  by (simp_all add: length_message_def str_nat_16383 rom_part1_def rom_part2_def lit_def)

lemma length_message_16385:
  "length_message rom_part1 16385 = lit ''rom/eh_hex_part1.txt is 16385 chars, expected 16384''"
  by (simp add: length_message_def str_nat_16385 rom_part1_def lit_def)

lemma invalid_message_part1:
  "invalid_message rom_part1 = lit ''rom/eh_hex_part1.txt contains invalid hex''"
  by (simp add: invalid_message_def rom_part1_def lit_def)

lemma join_Nil_sep: "join [] xs = concat xs"
  by (induction "[]::nat list" xs rule: join.induct) simp_all

subsection \<open>The outcomes of \<open>read_and_validate\<close>\<close>

lemma rav_length:
  "read_text w p = Inr t \<Longrightarrow> length (normalized t) \<noteq> 16384 \<Longrightarrow>
   read_and_validate w p = Inl (ValueError (length_message p (length (normalized t))))"
  by (simp add: read_and_validate_def)

lemma rav_invalid:
  "read_text w p = Inr t \<Longrightarrow> length (normalized t) = 16384 \<Longrightarrow>
   list_ex (\<lambda>c. c \<notin> set hexdigits) (normalized t) \<Longrightarrow>
   read_and_validate w p = Inl (ValueError (invalid_message p))"
  by (simp add: read_and_validate_def)

lemma rav_ok:
  "read_text w p = Inr t \<Longrightarrow> length (normalized t) = 16384 \<Longrightarrow>
   list_all (\<lambda>c. c \<in> set hexdigits) (normalized t) \<Longrightarrow>
   read_and_validate w p = Inr (lower (normalized t))"
  by (simp add: read_and_validate_def list_ex_iff list_all_iff)

lemma rav_InrD:
  assumes "read_and_validate w p = Inr d"
  shows "\<exists>t. read_text w p = Inr t \<and> length (normalized t) = 16384 \<and>
           list_all (\<lambda>c. c \<in> set hexdigits) (normalized t) \<and> d = lower (normalized t)"
  using assms
  by (auto simp: read_and_validate_def Let_def list_ex_iff list_all_iff
           split: sum.splits if_splits)

lemma rav_length_Inr: "read_and_validate w p = Inr d \<Longrightarrow> length d = 16384"
  by (auto dest!: rav_InrD simp: lower_def)

lemma rav_rejects_space:
  assumes "read_text w p = Inr t" "list_ex isspace (normalized t)"
  shows "isl (read_and_validate w p)"
proof (cases "length (normalized t) = 16384")
  case True
  from assms(2) have "list_ex (\<lambda>c. c \<notin> set hexdigits) (normalized t)"
    by (auto simp: list_ex_iff dest: hex_not_space)
  with True assms(1) show ?thesis by (simp add: rav_invalid)
next
  case False
  with assms(1) show ?thesis by (simp add: rav_length)
qed

lemma rav_cong: "files w p = files w' p \<Longrightarrow> read_and_validate w p = read_and_validate w' p"
  by (simp add: read_and_validate_def read_text_def)

lemma rav_replicate_hex:
  assumes "files w p = Some (replicate 16384 c)" "c \<in> set hexdigits"
  shows "read_and_validate w p = Inr (replicate 16384 (lower_cp c))"
proof -
  have "c \<noteq> 13"
    using assms(2) by (auto simp: hexdigits_iff)
  then have r: "read_text w p = Inr (replicate 16384 c)"
    using assms(1) by (simp add: read_text_files)
  have n: "normalized (replicate 16384 c) = replicate 16384 c"
    using assms(2) by (simp add: normalized_replicate hex_not_space)
  show ?thesis
    using rav_ok [OF r] assms(2) by (simp add: n list_all_iff lower_replicate)
qed

subsection \<open>The chunks of a long word\<close>

lemma wrap_word_Nil: "wrap_word n [] = []"
  by (simp add: wrap_word.simps)

lemma wrap_word_step:
  assumes "0 < n" "a \<noteq> []"
  shows "wrap_word n a = take n a # wrap_word n (drop n a)"
  using assms by (subst wrap_word.simps) (simp add: wrap_word_Nil)

lemma wrap_word_append:
  "0 < n \<Longrightarrow> length a = k * n \<Longrightarrow> wrap_word n (a @ b) = wrap_word n a @ wrap_word n b"
proof (induction k arbitrary: a)
  case 0
  then show ?case by (simp add: wrap_word_Nil)
next
  case (Suc k)
  then have ne: "a \<noteq> []" by auto
  have len: "length (drop n a) = k * n" using Suc.prems by simp
  have "wrap_word n (a @ b) = take n (a @ b) # wrap_word n (drop n (a @ b))"
    using Suc.prems ne by (simp add: wrap_word_step)
  also have "\<dots> = take n a # wrap_word n (drop n a @ b)"
    using Suc.prems by simp
  also have "\<dots> = take n a # wrap_word n (drop n a) @ wrap_word n b"
    using Suc.IH [OF Suc.prems(1) len] by simp
  also have "\<dots> = wrap_word n a @ wrap_word n b"
    using Suc.prems ne by (simp add: wrap_word_step [of n a])
  finally show ?case .
qed

lemma wrap_word_replicate:
  "0 < n \<Longrightarrow> wrap_word n (replicate (k * n) x) = replicate k (replicate n x)"
proof (induction k)
  case 0
  then show ?case by (simp add: wrap_word_Nil)
next
  case (Suc k)
  have "replicate (Suc k * n) x = replicate n x @ replicate (k * n) x"
    by (simp add: replicate_add)
  moreover have "wrap_word n (replicate n x) = [replicate n x]"
    using Suc.prems by (subst wrap_word.simps) simp
  ultimately show ?case
    using Suc wrap_word_append [of n "replicate n x" 1 "replicate (k * n) x"] by simp
qed

lemma concat_wrap_word: "concat (wrap_word n s) = s"
  by (induction n s rule: wrap_word.induct) (subst wrap_word.simps, simp)

lemma wrap_word_slices:
  "0 < n \<Longrightarrow> length s = k * n \<Longrightarrow>
   wrap_word n s = map (\<lambda>i. take n (drop (i * n) s)) [0..<k]"
proof (induction k arbitrary: s)
  case 0
  then show ?case by (simp add: wrap_word_Nil)
next
  case (Suc k)
  then have ne: "s \<noteq> []" by auto
  have len: "length (drop n s) = k * n" using Suc.prems by simp
  have "[0..<Suc k] = 0 # map Suc [0..<k]"
    by (simp add: upt_conv_Cons map_Suc_upt del: upt_Suc)
  then have "map (\<lambda>i. take n (drop (i * n) s)) [0..<Suc k] =
        take n s # map (\<lambda>i. take n (drop (i * n) (drop n s))) [0..<k]"
    by (simp add: o_def add.commute del: upt_Suc)
  then show ?case
    using Suc.IH [OF Suc.prems(1) len] Suc.prems(1) ne by (simp add: wrap_word_step del: upt_Suc)
qed

lemma length_slices: "length (slices n s) = length s div n"
  by (simp add: slices_def)

lemma slices_lengths:
  assumes "0 < n" "length s = k * n"
  shows "list_all (\<lambda>c. length c = n) (slices n s)"
proof -
  have "length (take n (drop (i * n) s)) = n" if "i < k" for i
  proof -
    from that have "Suc i * n \<le> k * n" by (intro mult_le_mono1) simp
    then have "n \<le> k * n - i * n" by simp
    then show ?thesis using assms(2) by simp
  qed
  then show ?thesis
    using assms by (simp add: slices_def list_all_iff)
qed

lemma wrap_slices:
  assumes "0 < n" "length s = k * n"
  shows "wrap s n = Inr (slices n s)"
  using assms by (simp add: wrap_def slices_def wrap_word_slices [of n s k])

lemma concat_slices:
  assumes "0 < n" "length s = k * n"
  shows "concat (slices n s) = s"
  using wrap_slices [OF assms] assms(1) concat_wrap_word [of n s] by (simp add: wrap_def)

subsection \<open>The outcomes of \<open>main\<close>\<close>

lemma read_parts_PART_FILES:
  "read_parts w PART_FILES =
     (case read_and_validate w rom_part1 of
        Inl e \<Rightarrow> Inl e
      | Inr a \<Rightarrow> (case read_and_validate w rom_part2 of
                    Inl e \<Rightarrow> Inl e | Inr b \<Rightarrow> Inr [a, b]))"
  by (simp add: PART_FILES_def split: sum.splits)

lemma main_fail1: "read_and_validate w rom_part1 = Inl e \<Longrightarrow> main w = (Inl e, w)"
  by (simp add: main_def read_parts_PART_FILES)

lemma main_fail2:
  "read_and_validate w rom_part1 = Inr a \<Longrightarrow>
   read_and_validate w rom_part2 = Inl e \<Longrightarrow> main w = (Inl e, w)"
  by (simp add: main_def read_parts_PART_FILES)

lemma main_ok:
  assumes "read_and_validate w rom_part1 = Inr a"
    and "read_and_validate w rom_part2 = Inr b"
  shows "main w = (Inr (), print (write_text w OUTPUT_SOL
                     (sol_source (wrap_word 1024 (a @ b)))) generated_message)"
proof -
  have "length a = 16384" "length b = 16384"
    using assms by (simp_all add: rav_length_Inr)
  then show ?thesis
    using assms
    by (simp add: main_def read_parts_PART_FILES join_Nil_sep wrap_def CHUNK_HEX_LEN_def)
qed

lemma main_never_assertion: "fst (main w) \<noteq> Inl (AssertionError msg)"
proof (cases "read_and_validate w rom_part1")
  case (Inl e)
  then have "e \<noteq> AssertionError msg"
    by (auto simp: read_and_validate_def read_text_def Let_def split: option.splits if_splits)
  with Inl show ?thesis by (simp add: main_fail1)
next
  case a: (Inr a)
  show ?thesis
  proof (cases "read_and_validate w rom_part2")
    case (Inl e)
    then have "e \<noteq> AssertionError msg"
      by (auto simp: read_and_validate_def read_text_def Let_def split: option.splits if_splits)
    with a Inl show ?thesis by (simp add: main_fail2)
  next
    case (Inr b)
    with a show ?thesis by (simp add: main_ok)
  qed
qed

lemma main_failed_unchanged: "isl (fst (main w)) \<Longrightarrow> snd (main w) = w"
  by (auto simp: main_def Let_def split: sum.splits if_splits)

lemma main_fails_if_part_fails:
  assumes "p \<in> set PART_FILES" "read_and_validate w p = Inl e"
  shows "isl (fst (main w))"
proof (cases "read_and_validate w rom_part1")
  case (Inl e1)
  then show ?thesis by (simp add: main_fail1)
next
  case (Inr a)
  with assms have "read_and_validate w rom_part2 = Inl e"
    by (auto simp: PART_FILES_def)
  with Inr show ?thesis by (simp add: main_fail2)
qed

lemma main_cong:
  assumes "read_and_validate w' rom_part1 = read_and_validate w rom_part1"
    and "read_and_validate w' rom_part2 = read_and_validate w rom_part2"
  shows "fst (main w') = fst (main w)
       \<and> (case fst (main w) of
            Inl e \<Rightarrow> snd (main w) = w \<and> snd (main w') = w'
          | Inr u \<Rightarrow> files (snd (main w')) OUTPUT_SOL = files (snd (main w)) OUTPUT_SOL
                    \<and> files (snd (main w)) OUTPUT_SOL \<noteq> None)"
proof (cases "read_and_validate w rom_part1")
  case (Inl e)
  with assms show ?thesis by (simp add: main_fail1)
next
  case a: (Inr a)
  show ?thesis
  proof (cases "read_and_validate w rom_part2")
    case (Inl e)
    with a assms show ?thesis by (simp add: main_fail2)
  next
    case (Inr b)
    with a assms show ?thesis by (simp add: main_ok write_text_def print_def)
  qed
qed

lemma main_files_other:
  assumes "p \<noteq> OUTPUT_SOL"
  shows "files (snd (main w)) p = files w p"
proof (cases "isl (fst (main w))")
  case True
  then show ?thesis by (simp add: main_failed_unchanged)
next
  case False
  then obtain a b where "read_and_validate w rom_part1 = Inr a"
      "read_and_validate w rom_part2 = Inr b"
    by (cases "read_and_validate w rom_part1"; cases "read_and_validate w rom_part2")
       (simp_all add: main_fail1 main_fail2)
  then show ?thesis
    using assms by (simp add: main_ok write_text_def print_def)
qed

lemma main_rerun:
  "fst (main (snd (main w))) = fst (main w)
   \<and> files (snd (main (snd (main w)))) = files (snd (main w))"
proof -
  let ?w' = "snd (main w)"
  have r: "read_and_validate ?w' rom_part1 = read_and_validate w rom_part1"
    "read_and_validate ?w' rom_part2 = read_and_validate w rom_part2"
    using OUTPUT_SOL_not_part by (auto intro!: rav_cong main_files_other)
  show ?thesis
  proof (cases "read_and_validate w rom_part1")
    case (Inl e)
    with r show ?thesis by (simp add: main_fail1)
  next
    case a: (Inr a)
    show ?thesis
    proof (cases "read_and_validate w rom_part2")
      case (Inl e)
      with a r show ?thesis by (simp add: main_fail2)
    next
      case (Inr b)
      with a r have "main ?w' = (Inr (), print (write_text ?w' OUTPUT_SOL
                     (sol_source (wrap_word 1024 (a @ b)))) generated_message)"
        by (intro main_ok) simp_all
      with a Inr show ?thesis by (simp add: main_ok write_text_def print_def)
    qed
  qed
qed

lemma main_replicate_hex:
  assumes "files w rom_part1 = Some (replicate 16384 c)" "c \<in> set hexdigits"
    and "files w rom_part2 = Some (replicate 16384 d)" "d \<in> set hexdigits"
  shows "main w = (Inr (), print (write_text w OUTPUT_SOL
           (sol_source (replicate 16 (replicate 1024 (lower_cp c))
                        @ replicate 16 (replicate 1024 (lower_cp d))))) generated_message)"
proof -
  have "wrap_word 1024 (replicate 16384 (lower_cp c) @ replicate 16384 (lower_cp d))
          = replicate 16 (replicate 1024 (lower_cp c)) @ replicate 16 (replicate 1024 (lower_cp d))"
    using wrap_word_append [of 1024 "replicate 16384 (lower_cp c)" 16 "replicate 16384 (lower_cp d)"]
      wrap_word_replicate [of 1024 16 "lower_cp c"] wrap_word_replicate [of 1024 16 "lower_cp d"]
    by simp
  then show ?thesis
    using main_ok [OF rav_replicate_hex [OF assms(1,2)] rav_replicate_hex [OF assms(3,4)]]
    by simp
qed

subsection \<open>Texts that differ in letter case\<close>

lemma case_rel_space:
  "a = b \<or> (a \<in> set hexdigits \<and> b \<in> set hexdigits \<and> lower_cp a = lower_cp b)
   \<Longrightarrow> isspace a = isspace b"
  by (auto dest: hex_not_space)

lemma case_rel_nl:
  "a = b \<or> (a \<in> set hexdigits \<and> b \<in> set hexdigits \<and> lower_cp a = lower_cp b)
   \<Longrightarrow> (a = 10) = (b = 10)"
  using isspace_nl by (auto dest: hex_not_space)

lemma case_rel_cr:
  "a = b \<or> (a \<in> set hexdigits \<and> b \<in> set hexdigits \<and> lower_cp a = lower_cp b)
   \<Longrightarrow> (a = 13) = (b = 13)"
  by (auto simp: hexdigits_iff)

lemma case_variant_length: "case_variant s t \<Longrightarrow> length s = length t"
  by (simp add: case_variant_def list_all2_lengthD)

lemma case_variant_dropWhile:
  "case_variant s t \<Longrightarrow> case_variant (dropWhile isspace s) (dropWhile isspace t)"
  unfolding case_variant_def
proof (induction rule: list_all2_induct)
  case Nil
  then show ?case by simp
next
  case (Cons x xs y ys)
  from Cons.hyps(1) have "isspace x = isspace y" by (rule case_rel_space)
  with Cons show ?case by simp
qed

lemma case_variant_rev: "case_variant s t \<Longrightarrow> case_variant (rev s) (rev t)"
  by (simp add: case_variant_def)

lemma case_variant_strip: "case_variant s t \<Longrightarrow> case_variant (strip s) (strip t)"
  unfolding strip_def
  by (intro case_variant_rev case_variant_dropWhile)

lemma case_variant_filter_nl:
  "case_variant s t \<Longrightarrow>
   case_variant (filter (\<lambda>c. c \<noteq> 10) s) (filter (\<lambda>c. c \<noteq> 10) t)"
  unfolding case_variant_def
proof (induction rule: list_all2_induct)
  case Nil
  then show ?case by simp
next
  case (Cons x xs y ys)
  from Cons.hyps(1) have "(x = 10) = (y = 10)" by (rule case_rel_nl)
  with Cons show ?case by simp
qed

lemma case_variant_translate:
  "case_variant s t \<Longrightarrow> case_variant (translate_newlines f s) (translate_newlines f t)"
  unfolding case_variant_def
proof (induction arbitrary: f rule: list_all2_induct)
  case Nil
  then show ?case by simp
next
  case (Cons x xs y ys)
  from Cons.hyps(1) have "(x = 10) = (y = 10)" by (rule case_rel_nl)
  moreover from Cons.hyps(1) have "(x = 13) = (y = 13)" by (rule case_rel_cr)
  ultimately show ?case using Cons by simp
qed

lemma case_variant_normalized:
  "case_variant s t \<Longrightarrow> case_variant (normalized s) (normalized t)"
  by (simp add: normalized_def replace_char_Nil case_variant_strip case_variant_filter_nl)

lemma case_variant_lower: "case_variant s t \<Longrightarrow> lower s = lower t"
  unfolding case_variant_def lower_def
  by (induction rule: list_all2_induct) auto

lemma case_variant_invalid:
  "case_variant s t \<Longrightarrow>
   list_ex (\<lambda>c. c \<notin> set hexdigits) s = list_ex (\<lambda>c. c \<notin> set hexdigits) t"
  unfolding case_variant_def
  by (induction rule: list_all2_induct) auto

lemma rav_case_variant:
  assumes "files w p = Some s" "files w' p = Some t" "case_variant s t"
  shows "read_and_validate w' p = read_and_validate w p"
proof -
  have "case_variant (universal_newlines s) (universal_newlines t)"
    unfolding universal_newlines_def using assms(3) by (rule case_variant_translate)
  then have n: "case_variant (normalized (universal_newlines s)) (normalized (universal_newlines t))"
    by (rule case_variant_normalized)
  show ?thesis
    using assms(1,2) case_variant_length [OF n] case_variant_lower [OF n]
      case_variant_invalid [OF n]
    by (simp add: read_and_validate_def read_text_def Let_def)
qed

lemma case_variant_replicate:
  assumes "a \<in> set hexdigits" "b \<in> set hexdigits" "lower_cp a = lower_cp b"
  shows "case_variant (replicate n a) (replicate n b)"
  using assms by (simp add: case_variant_def list_all2_conv_all_nth)

subsection \<open>The emitted text and its tokens\<close>

lemma hex_tokens_skip: "c \<noteq> 104 \<Longrightarrow> hex_tokens (c # cs) = hex_tokens cs"
  by (subst hex_tokens.simps) simp

lemma hex_tokens_skip_h: "take 3 cs \<noteq> [101, 120, 34] \<Longrightarrow> hex_tokens (104 # cs) = hex_tokens cs"
  by (subst hex_tokens.simps) simp

lemma hex_tokens_token:
  assumes "34 \<notin> set x"
  shows "hex_tokens (104 # 101 # 120 # 34 # x @ 34 # r) = x # hex_tokens r"
proof -
  have t: "takeWhile (\<lambda>d. d \<noteq> 34) (x @ 34 # r) = x"
    using assms by (subst takeWhile_append2) auto
  have d: "dropWhile (\<lambda>d. d \<noteq> 34) (x @ 34 # r) = 34 # r"
    using assms by (subst dropWhile_append2) auto
  have "hex_tokens (104 # 101 # 120 # 34 # x @ 34 # r) = x # hex_tokens (34 # r)"
    by (subst hex_tokens.simps) (simp add: t d)
  then show ?thesis by (simp add: hex_tokens_skip)
qed

lemma hex_literal_eq: "hex_literal x = 104 # 101 # 120 # 34 # x @ [34]"
  by (simp add: hex_literal_def lit_def)

lemma join_Cons: "ys \<noteq> [] \<Longrightarrow> join sep (x # ys) = x @ sep @ join sep ys"
  by (cases ys) simp_all

lemma hex_tokens_join:
  "list_all (\<lambda>c. 34 \<notin> set c) cs \<Longrightarrow>
   hex_tokens (join (lit '' '') (map hex_literal cs) @ r) = cs @ hex_tokens r"
proof (induction cs)
  case Nil
  then show ?case by simp
next
  case (Cons x cs)
  show ?case
  proof (cases "cs = []")
    case True
    with Cons.prems show ?thesis
      by (simp add: hex_literal_eq hex_tokens_token)
  next
    case False
    then have "join (lit '' '') (map hex_literal (x # cs)) @ r
        = 104 # 101 # 120 # 34 # x @ 34 # 32 # join (lit '' '') (map hex_literal cs) @ r"
      by (simp add: join_Cons hex_literal_eq lit_def)
    then show ?thesis
      using Cons by (simp add: hex_tokens_token hex_tokens_skip)
  qed
qed

lemma hex_tokens_sol_head: "hex_tokens (sol_head @ r) = hex_tokens r"
  unfolding sol_head_def lit_def
  by (simp add: hex_tokens_skip hex_tokens_skip_h)

lemma hex_tokens_sol_tail: "hex_tokens sol_tail = []"
  unfolding sol_tail_def lit_def
  by (simp add: hex_tokens_skip hex_tokens_skip_h hex_tokens.simps(1))

lemma hex_tokens_sol_source:
  "list_all (\<lambda>c. 34 \<notin> set c) cs \<Longrightarrow> hex_tokens (sol_source cs) = cs"
  by (simp add: sol_source_def hex_tokens_sol_head hex_tokens_join hex_tokens_sol_tail)

lemma join_snoc: "join sep (xs @ [y]) = concat (map (\<lambda>x. x @ sep) xs) @ y"
  by (induction xs) (simp_all add: join_Cons)

lemma join_two_runs:
  "join sep (replicate (Suc m) a @ replicate (Suc n) b)
     = concat (replicate (Suc m) (a @ sep)) @ concat (replicate n (b @ sep)) @ b"
proof -
  have "replicate (Suc n) b = replicate n b @ [b]"
    by (simp add: replicate_append_same)
  then have "replicate (Suc m) a @ replicate (Suc n) b
               = (replicate (Suc m) a @ replicate n b) @ [b]"
    by simp
  then show ?thesis
    by (simp only: join_snoc) simp
qed

subsection \<open>The scenario\<close>

lemma repeated_pair: "repeated [x, x] n = replicate (2 * n) x"
  by (induction n) (simp_all add: repeated_def)

lemma scenario_parts:
  "repeated (lit ''00'') 8192 = replicate 16384 48"
  "repeated (lit ''ff'') 8192 = replicate 16384 102"
  "repeated (lit ''00'') 512 = replicate 1024 48"
  "repeated (lit ''ff'') 512 = replicate 1024 102"
  by (simp_all add: lit_def repeated_pair)

lemma main_scenario:
  "main scenario_world = (Inr (), print (write_text scenario_world OUTPUT_SOL
     (sol_source (replicate 16 (replicate 1024 48) @ replicate 16 (replicate 1024 102))))
     generated_message)"
  using main_replicate_hex [of scenario_world 48 102]
  by (simp add: scenario_world_def scenario_parts files_rom_world hexdigits_iff lower_cp_def)

lemma stdout_scenario: "stdout scenario_world = []"
  by (simp add: scenario_world_def rom_world_def)

section \<open>The claims\<close>

text \<open>
  C5. Whenever \<open>read_and_validate\<close> returns a string, the string has exactly 16384
  characters and each of them is a lower-case hexadecimal digit, whatever the letter case
  of the input was.
\<close>

theorem validated_fragment_lower_hex:
  assumes "read_and_validate w p = Inr d"
  shows "length d = 16384 \<and> list_all (\<lambda>c. c \<in> set (lit ''0123456789abcdef'')) d"
proof -
  from assms obtain t where t: "list_all (\<lambda>c. c \<in> set hexdigits) (normalized t)"
      "d = lower (normalized t)"
    by (auto dest: rav_InrD)
  have "list_all (\<lambda>c. c \<in> set (lit ''0123456789abcdef'')) d"
    using t by (auto simp: list_all_iff lower_def intro: lower_cp_hex)
  with assms show ?thesis by (simp add: rav_length_Inr)
qed

theorem validated_fragment_lower_hex_witness:
  "read_and_validate (rom_world (replicate 16384 65) []) rom_part1 = Inr (replicate 16384 97)
   \<and> length (replicate 16384 (97::nat)) = 16384
   \<and> list_all (\<lambda>c. c \<in> set (lit ''0123456789abcdef'')) (replicate 16384 97)"
proof -
  have h: "read_and_validate (rom_world (replicate 16384 65) []) rom_part1
             = Inr (replicate 16384 97)"
    using rav_replicate_hex [of "rom_world (replicate 16384 65) []" "rom_part1" 65]
    by (simp add: files_rom_world hexdigits_iff lower_cp_def)
  show ?thesis using h validated_fragment_lower_hex [OF h] by simp
qed

text \<open>
  C8. When both fragments pass validation, the list of parts is the two validated strings,
  the assembled payload has 32768 characters and the run returns normally; and no run at
  all ends in the \<open>AssertionError\<close> of the length check on the combined payload.
\<close>

theorem integrity_check_unreachable:
  "(read_and_validate w rom_part1 = Inr a \<and> read_and_validate w rom_part2 = Inr b
      \<longrightarrow> read_parts w PART_FILES = Inr [a, b] \<and> length (join [] [a, b]) = 32768
          \<and> fst (main w) = Inr ())
   \<and> fst (main w) \<noteq> Inl (AssertionError msg)"
  by (auto simp: read_parts_PART_FILES main_ok rav_length_Inr main_never_assertion)

theorem integrity_check_unreachable_witness:
  "read_and_validate (rom_world (replicate 16384 48) (replicate 16384 70)) rom_part1
     = Inr (replicate 16384 48)
   \<and> read_and_validate (rom_world (replicate 16384 48) (replicate 16384 70)) rom_part2
     = Inr (replicate 16384 102)
   \<and> read_parts (rom_world (replicate 16384 48) (replicate 16384 70)) PART_FILES
     = Inr [replicate 16384 48, replicate 16384 102]
   \<and> length (join [] [replicate 16384 (48::nat), replicate 16384 102]) = 32768
   \<and> fst (main (rom_world (replicate 16384 48) (replicate 16384 70))) = Inr ()"
proof -
  have h1: "read_and_validate (rom_world (replicate 16384 48) (replicate 16384 70))
              rom_part1 = Inr (replicate 16384 48)"
    using rav_replicate_hex [of "rom_world (replicate 16384 48) (replicate 16384 70)"
        rom_part1 48]
    by (simp add: files_rom_world hexdigits_iff lower_cp_def)
  have h2: "read_and_validate (rom_world (replicate 16384 48) (replicate 16384 70))
              rom_part2 = Inr (replicate 16384 102)"
    using rav_replicate_hex [of "rom_world (replicate 16384 48) (replicate 16384 70)"
        rom_part2 70]
    by (simp add: files_rom_world hexdigits_iff lower_cp_def)
  show ?thesis
    using h1 h2 integrity_check_unreachable
      [of "rom_world (replicate 16384 48) (replicate 16384 70)"
          "replicate 16384 48" "replicate 16384 102"]
    by simp
qed

text \<open>
  C4. For a payload over the hexadecimal alphabet whose length is a positive multiple of
  1024, the chunker returns the consecutive substrings of length 1024, left to right:
  their number is the length divided by 1024, each has length 1024, and their
  concatenation in order is the payload.
\<close>

theorem chunker_covers_payload:
  assumes "list_all (\<lambda>c. c \<in> set hexdigits) payload"
    and "0 < k" and "length payload = k * 1024"
  shows "wrap payload CHUNK_HEX_LEN = Inr (slices 1024 payload)
       \<and> length (slices 1024 payload) = length payload div 1024
       \<and> list_all (\<lambda>c. length c = 1024) (slices 1024 payload)
       \<and> concat (slices 1024 payload) = payload"
  using assms(3) wrap_slices [of 1024 payload k] slices_lengths [of 1024 payload k]
    concat_slices [of 1024 payload k]
  by (simp add: CHUNK_HEX_LEN_def length_slices)

theorem chunker_covers_payload_witness:
  "list_all (\<lambda>c. c \<in> set hexdigits) (replicate 1024 48 @ replicate 1024 102)
   \<and> (0::nat) < 2
   \<and> length (replicate 1024 (48::nat) @ replicate 1024 102) = 2 * 1024
   \<and> wrap (replicate 1024 48 @ replicate 1024 102) CHUNK_HEX_LEN
       = Inr [replicate 1024 48, replicate 1024 102]
   \<and> slices 1024 (replicate 1024 48 @ replicate 1024 102)
       = [replicate 1024 48, replicate 1024 102]
   \<and> concat (slices 1024 (replicate 1024 48 @ replicate 1024 102))
       = replicate 1024 48 @ replicate 1024 102"
proof -
  have h: "list_all (\<lambda>c. c \<in> set hexdigits) (replicate 1024 48 @ replicate 1024 102)"
    by (simp add: list_all_iff hexdigits_iff)
  have s: "slices 1024 (replicate 1024 48 @ replicate 1024 102)
             = [replicate 1024 48, replicate 1024 102]"
    using wrap_slices [of 1024 "replicate 1024 48 @ replicate 1024 102" 2]
      wrap_word_append [of 1024 "replicate 1024 48" 1 "replicate 1024 102"]
      wrap_word_replicate [of 1024 1 48] wrap_word_replicate [of 1024 1 102]
    by (simp add: wrap_def)
  show ?thesis
    using h chunker_covers_payload [OF h, of 2] by (simp add: s)
qed

text \<open>
  C6. The character check stands beside the length check: a fragment of normalized length
  16384 with a character outside \<open>0-9a-fA-F\<close> is rejected with the invalid-hex error, a
  fragment of another length is rejected with the length error whether or not it also
  holds an invalid character, and a fragment is rejected exactly when it has one of the
  two defects.
\<close>

theorem invalid_character_independent:
  assumes "read_text w p = Inr t"
  shows "(length (normalized t) = 16384 \<and> list_ex (\<lambda>c. c \<notin> set hexdigits) (normalized t)
            \<longrightarrow> read_and_validate w p = Inl (ValueError (invalid_message p)))
       \<and> (length (normalized t) \<noteq> 16384
            \<longrightarrow> read_and_validate w p
                  = Inl (ValueError (length_message p (length (normalized t)))))
       \<and> (isl (read_and_validate w p)
            \<longleftrightarrow> length (normalized t) \<noteq> 16384 \<or> list_ex (\<lambda>c. c \<notin> set hexdigits) (normalized t))"
  using assms
  by (auto simp: read_and_validate_def Let_def)

theorem invalid_character_independent_witness:
  "read_text (rom_world (replicate 16384 103) (replicate 3 103)) rom_part1
       = Inr (replicate 16384 103)
   \<and> length (normalized (replicate 16384 103)) = 16384
   \<and> list_ex (\<lambda>c. c \<notin> set hexdigits) (normalized (replicate 16384 103))
   \<and> read_and_validate (rom_world (replicate 16384 103) (replicate 3 103)) rom_part1
       = Inl (ValueError (invalid_message rom_part1))
   \<and> read_text (rom_world (replicate 16384 103) (replicate 3 103)) rom_part2
       = Inr (replicate 3 103)
   \<and> length (normalized (replicate 3 103)) \<noteq> 16384
   \<and> list_ex (\<lambda>c. c \<notin> set hexdigits) (normalized (replicate 3 103))
   \<and> read_and_validate (rom_world (replicate 16384 103) (replicate 3 103)) rom_part2
       = Inl (ValueError (length_message rom_part2 3))
   \<and> isl (read_and_validate (rom_world (replicate 16384 103) (replicate 3 103)) rom_part2)"
proof -
  have g: "\<not> isspace 103" "103 \<notin> set hexdigits"
    by (simp_all add: isspace_def hexdigits_iff)
  have n: "normalized (replicate 16384 103) = replicate 16384 103"
    "normalized (replicate 3 103) = replicate 3 103"
    using g by (simp_all add: normalized_replicate)
  show ?thesis
    using invalid_character_independent
        [of "rom_world (replicate 16384 103) (replicate 3 103)" rom_part1 "replicate 16384 103"]
      invalid_character_independent
        [of "rom_world (replicate 16384 103) (replicate 3 103)" rom_part2 "replicate 3 103"]
      g
    by (simp add: read_text_rom_world n list_ex_iff)
qed

text \<open>
  C7, as stated, fails: a run in which some fragment has normalized length 16383 need not
  end in the length error for that fragment. The parts are validated in order and the
  first failure ends the run: here the first part has the right length and an invalid
  character, the second part is one character short, and the run ends in the invalid-hex
  error of the first part.
\<close>

theorem short_fragment_counterexample:
  "length (normalized (replicate 16383 48)) = 16383
   \<and> read_text (rom_world (replicate 16384 103) (replicate 16383 48)) rom_part2
       = Inr (replicate 16383 48)
   \<and> main (rom_world (replicate 16384 103) (replicate 16383 48))
       = (Inl (ValueError (lit ''rom/eh_hex_part1.txt contains invalid hex'')),
          rom_world (replicate 16384 103) (replicate 16383 48))"
proof -
  have g: "\<not> isspace 103" "103 \<notin> set hexdigits" "\<not> isspace 48"
    by (simp_all add: isspace_def hexdigits_iff)
  have "read_and_validate (rom_world (replicate 16384 103) (replicate 16383 48)) rom_part1
          = Inl (ValueError (invalid_message rom_part1))"
    using g by (intro rav_invalid [where t = "replicate 16384 103"])
      (simp_all add: read_text_rom_world normalized_replicate list_ex_iff)
  then show ?thesis
    using g
    by (simp add: main_fail1 invalid_message_part1 normalized_replicate read_text_rom_world)
qed

text \<open>
  C7, amended. A first fragment of normalized length 16383 ends the run in the length
  error that reports 16383 and 16384 for the first path; a second fragment of that length,
  after a first one that passed validation, does so for the second path; and whenever some
  fragment has normalized length 16383 the run fails and leaves the world as it was, so
  nothing is written.
\<close>

theorem short_fragment_fails:
  "(read_text w rom_part1 = Inr t1 \<and> length (normalized t1) = 16383
      \<longrightarrow> main w = (Inl (ValueError
             (lit ''rom/eh_hex_part1.txt is 16383 chars, expected 16384'')), w))
   \<and> (read_and_validate w rom_part1 = Inr d \<and> read_text w rom_part2 = Inr t2
        \<and> length (normalized t2) = 16383
      \<longrightarrow> main w = (Inl (ValueError
             (lit ''rom/eh_hex_part2.txt is 16383 chars, expected 16384'')), w))
   \<and> (p \<in> set PART_FILES \<and> read_text w p = Inr t \<and> length (normalized t) = 16383
      \<longrightarrow> isl (fst (main w)) \<and> snd (main w) = w)"
proof (intro conjI impI)
  assume "read_text w rom_part1 = Inr t1 \<and> length (normalized t1) = 16383"
  then have "read_and_validate w rom_part1 = Inl (ValueError (length_message rom_part1 16383))"
    using rav_length [of w rom_part1 t1] by simp
  then show "main w = (Inl (ValueError
             (lit ''rom/eh_hex_part1.txt is 16383 chars, expected 16384'')), w)"
    by (simp add: main_fail1 length_message_16383)
next
  assume a: "read_and_validate w rom_part1 = Inr d \<and> read_text w rom_part2 = Inr t2
        \<and> length (normalized t2) = 16383"
  then have "read_and_validate w rom_part2 = Inl (ValueError (length_message rom_part2 16383))"
    using rav_length [of w rom_part2 t2] by simp
  with a show "main w = (Inl (ValueError
             (lit ''rom/eh_hex_part2.txt is 16383 chars, expected 16384'')), w)"
    by (simp add: main_fail2 length_message_16383)
next
  assume a: "p \<in> set PART_FILES \<and> read_text w p = Inr t \<and> length (normalized t) = 16383"
  then have "read_and_validate w p = Inl (ValueError (length_message p 16383))"
    using rav_length [of w p t] by simp
  with a show "isl (fst (main w))" by (blast intro: main_fails_if_part_fails)
  then show "snd (main w) = w" by (rule main_failed_unchanged)
qed

theorem short_fragment_fails_witness:
  "read_text (rom_world (replicate 16383 48) []) rom_part1 = Inr (replicate 16383 48)
   \<and> length (normalized (replicate 16383 48)) = 16383
   \<and> main (rom_world (replicate 16383 48) [])
       = (Inl (ValueError (lit ''rom/eh_hex_part1.txt is 16383 chars, expected 16384'')),
          rom_world (replicate 16383 48) [])
   \<and> read_and_validate (rom_world (replicate 16384 48) (replicate 16383 102)) rom_part1
       = Inr (replicate 16384 48)
   \<and> read_text (rom_world (replicate 16384 48) (replicate 16383 102)) rom_part2
       = Inr (replicate 16383 102)
   \<and> length (normalized (replicate 16383 102)) = 16383
   \<and> main (rom_world (replicate 16384 48) (replicate 16383 102))
       = (Inl (ValueError (lit ''rom/eh_hex_part2.txt is 16383 chars, expected 16384'')),
          rom_world (replicate 16384 48) (replicate 16383 102))
   \<and> rom_part2 \<in> set PART_FILES
   \<and> read_text (rom_world (replicate 16384 103) (replicate 16383 102)) rom_part2
       = Inr (replicate 16383 102)
   \<and> isl (fst (main (rom_world (replicate 16384 103) (replicate 16383 102))))
   \<and> snd (main (rom_world (replicate 16384 103) (replicate 16383 102)))
       = rom_world (replicate 16384 103) (replicate 16383 102)"
proof -
  have n: "normalized (replicate 16383 48) = replicate 16383 48"
    "normalized (replicate 16383 102) = replicate 16383 102"
    by (simp_all add: normalized_replicate isspace_def)
  have h: "read_and_validate (rom_world (replicate 16384 48) (replicate 16383 102)) rom_part1
       = Inr (replicate 16384 48)"
    using rav_replicate_hex [of "rom_world (replicate 16384 48) (replicate 16383 102)"
        rom_part1 48]
    by (simp add: files_rom_world hexdigits_iff lower_cp_def)
  show ?thesis
    using h
      short_fragment_fails [of "rom_world (replicate 16383 48) []" "replicate 16383 48"]
      short_fragment_fails [of "rom_world (replicate 16384 48) (replicate 16383 102)" _
          "replicate 16384 48" "replicate 16383 102"]
      short_fragment_fails [of "rom_world (replicate 16384 103) (replicate 16383 102)" _ _ _
          rom_part2 "replicate 16383 102"]
    by (simp add: read_text_rom_world n PART_FILES_def)
qed

text \<open>
  C1, as stated, fails: the normalization does not remove every white space character.
  The text below is 8192 zeros, a space, and 8192 zeros: without its white space it is
  exactly 16384 hexadecimal digits, yet the space stays in the normalized text, which has
  16385 characters, and the fragment is rejected by the length check.
\<close>

theorem embedded_space_counterexample:
  "spec_normalized (replicate 8192 48 @ 32 # replicate 8192 48) = replicate 16384 48
   \<and> set (replicate 16384 48) \<subseteq> set hexdigits
   \<and> read_and_validate (rom_world (replicate 8192 48 @ 32 # replicate 8192 48) []) rom_part1
       = Inl (ValueError (lit ''rom/eh_hex_part1.txt is 16385 chars, expected 16384''))"
proof -
  let ?t = "replicate 8192 48 @ 32 # replicate 8192 (48::nat)"
  have sp: "\<not> isspace 48" "isspace 32" by (simp_all add: isspace_def)
  have "replicate 8192 48 @ replicate 8192 48 = replicate 16384 (48::nat)"
    by (simp add: replicate_add [symmetric])
  then have a: "spec_normalized ?t = replicate 16384 48"
    using sp by (simp add: spec_normalized_def)
  have "strip ?t = ?t"
    using sp by (intro strip_core) simp_all
  then have n: "normalized ?t = ?t"
    by (simp add: normalized_def replace_char_Nil)
  have len: "length (normalized ?t) = 16385"
    unfolding n by simp
  have "read_and_validate (rom_world ?t []) rom_part1
          = Inl (ValueError (length_message rom_part1 16385))"
    using rav_length [of "rom_world ?t []" rom_part1 ?t]
    by (simp add: read_text_rom_world len)
  then show ?thesis
    using a by (simp add: length_message_16385 hexdigits_iff)
qed

text \<open>
  C1, amended. Before the checks, reading and normalizing the text of a fragment remove
  the white space at both ends and every line break, wherever it stands: a newline, a
  carriage return, and the two together (reading turns each into a newline, and the
  newlines are removed). Nothing else is removed: a text of white space becomes empty,
  and in a text with white space around a core that starts and ends with other
  characters the core stays, less its newlines and carriage returns. So a space or a tab
  in the interior stays, and a fragment whose normalized text still holds a white space
  character is rejected.
\<close>

theorem normalization_strips_ends_and_newlines:
  "(list_all isspace u \<and> list_all isspace v \<and> \<not> isspace x \<and> \<not> isspace y
      \<longrightarrow> normalized (universal_newlines u) = []
          \<and> normalized (universal_newlines (u @ x # v)) = [x]
          \<and> normalized (universal_newlines (u @ x # m @ y # v))
              = x # filter (\<lambda>c. c \<noteq> 10 \<and> c \<noteq> 13) m @ [y])
   \<and> 10 \<notin> set (normalized (universal_newlines raw))
   \<and> 13 \<notin> set (normalized (universal_newlines raw))
   \<and> (read_text w p = Inr text \<and> list_ex isspace (normalized text)
        \<longrightarrow> isl (read_and_validate w p))"
proof (intro conjI impI)
  assume a: "list_all isspace u \<and> list_all isspace v \<and> \<not> isspace x \<and> \<not> isspace y"
  then have x: "x \<noteq> 10" "x \<noteq> 13" and y: "y \<noteq> 10" "y \<noteq> 13"
    by (auto simp: isspace_def)
  have u: "list_all isspace (translate_newlines False u)"
    and v: "list_all isspace (translate_newlines False v)"
    using a by (simp_all add: translate_newlines_space)
  from u show "normalized (universal_newlines u) = []"
    by (simp add: normalized_def universal_newlines_def strip_all_space replace_char_Nil)
  have "universal_newlines (u @ x # v) = translate_newlines False u @ x # translate_newlines False v"
    using x by (simp add: universal_newlines_def translate_newlines_append)
  with a u v x show "normalized (universal_newlines (u @ x # v)) = [x]"
    by (simp add: normalized_def strip_pad_single replace_char_Nil)
  have "universal_newlines (u @ x # m @ y # v)
          = translate_newlines False u @ x # translate_newlines False m
              @ y # translate_newlines False v"
    using x y by (simp add: universal_newlines_def translate_newlines_append)
  with a u v x y
  show "normalized (universal_newlines (u @ x # m @ y # v))
          = x # filter (\<lambda>c. c \<noteq> 10 \<and> c \<noteq> 13) m @ [y]"
    by (simp add: normalized_def strip_pad replace_char_Nil filter_translate_newlines)
next
  show "10 \<notin> set (normalized (universal_newlines raw))"
    by (simp add: normalized_def replace_char_Nil)
next
  have "set (strip (universal_newlines raw)) \<subseteq> set (universal_newlines raw)"
    by (rule set_strip)
  then show "13 \<notin> set (normalized (universal_newlines raw))"
    using translate_newlines_no_cr [of False raw]
    by (auto simp: normalized_def replace_char_Nil universal_newlines_def)
next
  assume "read_text w p = Inr text \<and> list_ex isspace (normalized text)"
  then show "isl (read_and_validate w p)"
    by (simp add: rav_rejects_space)
qed

theorem normalization_strips_ends_and_newlines_witness:
  "list_all isspace [32, 13, 10] \<and> list_all isspace [13, 10] \<and> \<not> isspace 48 \<and> \<not> isspace 50
   \<and> normalized (universal_newlines [32, 13, 10]) = []
   \<and> normalized (universal_newlines [32, 13, 10, 48, 13, 10]) = [48]
   \<and> normalized (universal_newlines [32, 13, 10, 48, 13, 10, 9, 49, 13, 32, 50, 13, 10])
       = [48, 9, 49, 32, 50]
   \<and> 10 \<notin> set (normalized (universal_newlines [32, 13, 10, 48, 13, 10, 9, 49, 13, 32, 50, 13, 10]))
   \<and> 13 \<notin> set (normalized (universal_newlines [32, 13, 10, 48, 13, 10, 9, 49, 13, 32, 50, 13, 10]))
   \<and> read_text (rom_world [32, 13, 10, 48, 13, 10, 9, 49, 13, 32, 50, 13, 10] []) rom_part1
       = Inr [32, 10, 48, 10, 9, 49, 10, 32, 50, 10]
   \<and> list_ex isspace (normalized [32, 10, 48, 10, 9, 49, 10, 32, 50, 10])
   \<and> isl (read_and_validate
            (rom_world [32, 13, 10, 48, 13, 10, 9, 49, 13, 32, 50, 13, 10] []) rom_part1)"
proof -
  have sp: "list_all isspace [32, 13, 10]" "list_all isspace [13, 10]" "\<not> isspace 48"
    "\<not> isspace 50" "isspace 32"
    by (simp_all add: isspace_def)
  have r: "read_text (rom_world [32, 13, 10, 48, 13, 10, 9, 49, 13, 32, 50, 13, 10] []) rom_part1
             = Inr [32, 10, 48, 10, 9, 49, 10, 32, 50, 10]"
    by (simp add: read_text_def files_rom_world universal_newlines_def)
  have u: "universal_newlines [32, 13, 10, 48, 13, 10, 9, 49, 13, 32, 50, 13, 10]
             = [32, 10, 48, 10, 9, 49, 10, 32, 50, 10]"
    by (simp add: universal_newlines_def)
  have n: "normalized (universal_newlines [32, 13, 10, 48, 13, 10, 9, 49, 13, 32, 50, 13, 10])
             = [48, 9, 49, 32, 50]"
    using sp normalization_strips_ends_and_newlines
      [of "[32, 13, 10]" "[13, 10]" 48 50 "[13, 10, 9, 49, 13, 32]"]
    by simp
  show ?thesis
    using sp r n
      normalization_strips_ends_and_newlines
        [of "[32, 13, 10]" "[13, 10]" 48 50 "[13, 10, 9, 49, 13, 32]"
            "[32, 13, 10, 48, 13, 10, 9, 49, 13, 32, 50, 13, 10]"
            "rom_world [32, 13, 10, 48, 13, 10, 9, 49, 13, 32, 50, 13, 10] []" rom_part1
            "[32, 10, 48, 10, 9, 49, 10, 32, 50, 10]"]
    unfolding u [symmetric]
    by simp
qed

text \<open>
  C10. The run is a function of the two input files. Two worlds that hold the same
  contents at the two input paths (or lack the same files) give the same outcome; a
  failed run leaves each world as it was; a successful run writes the same text to the
  output path in both. Running again on the world a run left behind gives the same
  outcome and leaves every file as it is.
\<close>

theorem main_deterministic:
  assumes "files w' rom_part1 = files w rom_part1" and "files w' rom_part2 = files w rom_part2"
  shows "fst (main w') = fst (main w)
       \<and> (case fst (main w) of
            Inl e \<Rightarrow> snd (main w) = w \<and> snd (main w') = w'
          | Inr u \<Rightarrow> files (snd (main w')) OUTPUT_SOL = files (snd (main w)) OUTPUT_SOL
                    \<and> files (snd (main w)) OUTPUT_SOL \<noteq> None)
       \<and> fst (main (snd (main w))) = fst (main w)
       \<and> files (snd (main (snd (main w)))) = files (snd (main w))"
  using main_cong [OF rav_cong [OF assms(1)] rav_cong [OF assms(2)]] main_rerun [of w]
  by simp

theorem main_deterministic_witness:
  "files ((rom_world (replicate 16384 48) (replicate 16384 102))
            \<lparr>files := (files (rom_world (replicate 16384 48) (replicate 16384 102)))
                        (OUTPUT_SOL \<mapsto> lit ''old''), stdout := lit ''earlier''\<rparr>) rom_part1
     = files (rom_world (replicate 16384 48) (replicate 16384 102)) rom_part1
   \<and> files ((rom_world (replicate 16384 48) (replicate 16384 102))
            \<lparr>files := (files (rom_world (replicate 16384 48) (replicate 16384 102)))
                        (OUTPUT_SOL \<mapsto> lit ''old''), stdout := lit ''earlier''\<rparr>) rom_part2
     = files (rom_world (replicate 16384 48) (replicate 16384 102)) rom_part2
   \<and> fst (main (rom_world (replicate 16384 48) (replicate 16384 102))) = Inr ()
   \<and> fst (main ((rom_world (replicate 16384 48) (replicate 16384 102))
            \<lparr>files := (files (rom_world (replicate 16384 48) (replicate 16384 102)))
                        (OUTPUT_SOL \<mapsto> lit ''old''), stdout := lit ''earlier''\<rparr>)) = Inr ()
   \<and> files (snd (main ((rom_world (replicate 16384 48) (replicate 16384 102))
            \<lparr>files := (files (rom_world (replicate 16384 48) (replicate 16384 102)))
                        (OUTPUT_SOL \<mapsto> lit ''old''), stdout := lit ''earlier''\<rparr>))) OUTPUT_SOL
     = files (snd (main (rom_world (replicate 16384 48) (replicate 16384 102)))) OUTPUT_SOL
   \<and> files (snd (main (rom_world (replicate 16384 48) (replicate 16384 102)))) OUTPUT_SOL
     = Some (sol_source (replicate 16 (replicate 1024 48) @ replicate 16 (replicate 1024 102)))
   \<and> files (snd (main (snd (main (rom_world (replicate 16384 48) (replicate 16384 102))))))
     = files (snd (main (rom_world (replicate 16384 48) (replicate 16384 102))))"
proof -
  let ?w = "rom_world (replicate 16384 48) (replicate 16384 102)"
  let ?w' = "?w\<lparr>files := (files ?w)(OUTPUT_SOL \<mapsto> lit ''old''), stdout := lit ''earlier''\<rparr>"
  have f: "files ?w' rom_part1 = files ?w rom_part1" "files ?w' rom_part2 = files ?w rom_part2"
    using OUTPUT_SOL_not_part by simp_all
  have m: "main ?w = (Inr (), print (write_text ?w OUTPUT_SOL
           (sol_source (replicate 16 (replicate 1024 48) @ replicate 16 (replicate 1024 102))))
           generated_message)"
    using main_replicate_hex [of ?w 48 102]
    by (simp add: files_rom_world hexdigits_iff lower_cp_def)
  show ?thesis
    using f m main_deterministic [OF f] by (simp add: write_text_def print_def)
qed

text \<open>
  C9. Two worlds whose input files differ only in the letter case of their hexadecimal
  characters give the same outcome, and a successful run writes the same text to the
  output path in both (a failed run writes nothing in either). Upper-case fragments and
  the same fragments lower-cased are such a pair.
\<close>

theorem case_insensitive_output:
  assumes "files w rom_part1 = Some a" and "files w' rom_part1 = Some a'"
    and "files w rom_part2 = Some b" and "files w' rom_part2 = Some b'"
    and "case_variant a a'" and "case_variant b b'"
  shows "fst (main w') = fst (main w)
       \<and> (case fst (main w) of
            Inl e \<Rightarrow> snd (main w) = w \<and> snd (main w') = w'
          | Inr u \<Rightarrow> files (snd (main w')) OUTPUT_SOL = files (snd (main w)) OUTPUT_SOL
                    \<and> files (snd (main w)) OUTPUT_SOL \<noteq> None)"
  using rav_case_variant [OF assms(1,2,5)] rav_case_variant [OF assms(3,4,6)]
  by (rule main_cong)

theorem case_insensitive_output_witness:
  "files (rom_world (replicate 16384 65) (replicate 16384 70)) rom_part1 = Some (replicate 16384 65)
   \<and> files (rom_world (replicate 16384 97) (replicate 16384 102)) rom_part1
       = Some (lower (replicate 16384 65))
   \<and> files (rom_world (replicate 16384 65) (replicate 16384 70)) rom_part2 = Some (replicate 16384 70)
   \<and> files (rom_world (replicate 16384 97) (replicate 16384 102)) rom_part2
       = Some (lower (replicate 16384 70))
   \<and> case_variant (replicate 16384 65) (replicate 16384 97)
   \<and> case_variant (replicate 16384 70) (replicate 16384 102)
   \<and> fst (main (rom_world (replicate 16384 65) (replicate 16384 70))) = Inr ()
   \<and> fst (main (rom_world (replicate 16384 97) (replicate 16384 102))) = Inr ()
   \<and> files (snd (main (rom_world (replicate 16384 97) (replicate 16384 102)))) OUTPUT_SOL
       = files (snd (main (rom_world (replicate 16384 65) (replicate 16384 70)))) OUTPUT_SOL
   \<and> files (snd (main (rom_world (replicate 16384 65) (replicate 16384 70)))) OUTPUT_SOL
       = Some (sol_source (replicate 16 (replicate 1024 97) @ replicate 16 (replicate 1024 102)))"
proof -
  let ?w = "rom_world (replicate 16384 65) (replicate 16384 70)"
  let ?w' = "rom_world (replicate 16384 97) (replicate 16384 102)"
  have l: "lower_cp 65 = 97" "lower_cp 70 = 102" "lower_cp 97 = 97" "lower_cp 102 = 102"
    by (simp_all add: lower_cp_def)
  have v: "case_variant (replicate 16384 65) (replicate 16384 97)"
    "case_variant (replicate 16384 70) (replicate 16384 102)"
    by (rule case_variant_replicate; simp add: hexdigits_iff l)+
  have m: "main ?w = (Inr (), print (write_text ?w OUTPUT_SOL
           (sol_source (replicate 16 (replicate 1024 97) @ replicate 16 (replicate 1024 102))))
           generated_message)"
    using main_replicate_hex [of ?w 65 70]
    by (simp add: files_rom_world hexdigits_iff l)
  show ?thesis
    using v m case_insensitive_output [of ?w "replicate 16384 65" ?w' "replicate 16384 97"
        "replicate 16384 70" "replicate 16384 102"]
    by (simp add: files_rom_world lower_replicate l write_text_def print_def)
qed

text \<open>
  C3. In the scenario, each fragment has 16384 characters and passes validation; the
  combined payload has 32768 characters; the chunker returns 32 chunks of 1024
  characters, sixteen times \<open>"00"\<close> repeated 512 times and then sixteen times \<open>"ff"\<close>
  repeated 512 times, so the first chunk is the former and the last one the latter. The
  run returns normally and the text it writes to the output path is, character for
  character, the header, then the 32 tokens \<open>hex"..."\<close> of these chunks in this order
  with single spaces between them, then the rest of the template; the hex literal tokens
  that stand in the written text are exactly these 32 chunks, in this order.
\<close>

theorem concrete_scenario:
  "length (repeated (lit ''00'') 8192) = 16384
   \<and> length (repeated (lit ''ff'') 8192) = 16384
   \<and> read_parts scenario_world PART_FILES
       = Inr [repeated (lit ''00'') 8192, repeated (lit ''ff'') 8192]
   \<and> length (join [] [repeated (lit ''00'') 8192, repeated (lit ''ff'') 8192]) = 32768
   \<and> wrap (join [] [repeated (lit ''00'') 8192, repeated (lit ''ff'') 8192]) CHUNK_HEX_LEN
       = Inr (replicate 16 (repeated (lit ''00'') 512) @ replicate 16 (repeated (lit ''ff'') 512))
   \<and> length (replicate 16 (repeated (lit ''00'') 512) @ replicate 16 (repeated (lit ''ff'') 512))
       = 32
   \<and> list_all (\<lambda>c. length c = 1024)
        (replicate 16 (repeated (lit ''00'') 512) @ replicate 16 (repeated (lit ''ff'') 512))
   \<and> hd (replicate 16 (repeated (lit ''00'') 512) @ replicate 16 (repeated (lit ''ff'') 512))
       = repeated (lit ''00'') 512
   \<and> last (replicate 16 (repeated (lit ''00'') 512) @ replicate 16 (repeated (lit ''ff'') 512))
       = repeated (lit ''ff'') 512
   \<and> main scenario_world
       = (Inr (),
          scenario_world
            \<lparr>files := (files scenario_world)
               (OUTPUT_SOL \<mapsto>
                  sol_source (replicate 16 (repeated (lit ''00'') 512)
                              @ replicate 16 (repeated (lit ''ff'') 512))),
             stdout := stdout scenario_world @ generated_message @ [10]\<rparr>)
   \<and> files (snd (main scenario_world)) OUTPUT_SOL
       = Some
          (lit ''// SPDX-License-Identifier: MIT'' @ [10] @
           lit ''pragma solidity ^0.8.20;'' @ [10] @
           [10] @
           lit ''/// @title BasicRom '' @ [8212] @ lit '' EhBASIC v2.22 ROM (16'' @ [160] @
             lit ''KiB)'' @ [10] @
           lit ''/// @notice Deployed bytecode *is* the ROM image. Auto'' @ [8209] @
             lit ''generated '' @ [8212] @ lit '' DO NOT EDIT MANUALLY.'' @ [10] @
           lit ''///          Regenerate with `python scripts/build_basic_rom.py` if needed.''
             @ [10] @
           lit ''contract BasicRom {'' @ [10] @
           lit ''    constructor() {'' @ [10] @
           lit ''        bytes memory rom = '' @
           concat (replicate 16
             (lit ''hex'' @ [34] @ repeated (lit ''00'') 512 @ [34] @ lit '' '')) @
           concat (replicate 15
             (lit ''hex'' @ [34] @ repeated (lit ''ff'') 512 @ [34] @ lit '' '')) @
           lit ''hex'' @ [34] @ repeated (lit ''ff'') 512 @ [34] @
           lit '';'' @ [10] @
           lit ''        assembly {'' @ [10] @
           lit ''            return(add(rom, 0x20), mload(rom))'' @ [10] @
           lit ''        }'' @ [10] @
           lit ''    }'' @ [10] @
           lit ''}'' @ [10])
   \<and> map_option hex_tokens (files (snd (main scenario_world)) OUTPUT_SOL)
       = Some (replicate 16 (repeated (lit ''00'') 512)
               @ replicate 16 (repeated (lit ''ff'') 512))"
proof -
  let ?chunks = "replicate 16 (replicate 1024 48) @ replicate 16 (replicate 1024 (102::nat))"
  have h: "48 \<in> set hexdigits" "102 \<in> set hexdigits" "lower_cp 48 = 48" "lower_cp 102 = 102"
    by (simp_all add: hexdigits_iff lower_cp_def)
  have f: "files scenario_world rom_part1 = Some (replicate 16384 48)"
    "files scenario_world rom_part2 = Some (replicate 16384 102)"
    by (simp_all add: scenario_world_def scenario_parts files_rom_world)
  have r: "read_and_validate scenario_world rom_part1 = Inr (replicate 16384 48)"
    "read_and_validate scenario_world rom_part2 = Inr (replicate 16384 102)"
    using rav_replicate_hex [OF f(1) h(1)] rav_replicate_hex [OF f(2) h(2)] h by simp_all
  have p: "read_parts scenario_world PART_FILES
             = Inr [replicate 16384 48, replicate 16384 102]"
    by (simp add: read_parts_PART_FILES r)
  have w: "wrap (replicate 16384 48 @ replicate 16384 102) CHUNK_HEX_LEN = Inr ?chunks"
    using wrap_word_append [of 1024 "replicate 16384 48" 16 "replicate 16384 102"]
      wrap_word_replicate [of 1024 16 48] wrap_word_replicate [of 1024 16 102]
    by (simp add: wrap_def CHUNK_HEX_LEN_def)
  have m: "main scenario_world
       = (Inr (),
          scenario_world
            \<lparr>files := (files scenario_world)(OUTPUT_SOL \<mapsto> sol_source ?chunks),
             stdout := stdout scenario_world @ generated_message @ [10]\<rparr>)"
    by (simp add: main_scenario write_text_def print_def)
  have o: "files (snd (main scenario_world)) OUTPUT_SOL = Some (sol_source ?chunks)"
    by (simp add: m)
  have j: "join (lit '' '') (map hex_literal ?chunks)
      = concat (replicate 16 (hex_literal (replicate 1024 48) @ lit '' ''))
        @ concat (replicate 15 (hex_literal (replicate 1024 102) @ lit '' ''))
        @ hex_literal (replicate 1024 102)"
    using join_two_runs [of "lit '' ''" 15 "hex_literal (replicate 1024 48)" 15
        "hex_literal (replicate 1024 102)"]
    by simp
  have s: "sol_source ?chunks
      = sol_head
        @ concat (replicate 16 (lit ''hex'' @ [34] @ replicate 1024 48 @ [34] @ lit '' ''))
        @ concat (replicate 15 (lit ''hex'' @ [34] @ replicate 1024 102 @ [34] @ lit '' ''))
        @ lit ''hex'' @ [34] @ replicate 1024 102 @ [34] @ sol_tail"
    unfolding sol_source_def j by (simp add: hex_literal_def)
  have t: "hex_tokens (sol_source ?chunks) = ?chunks"
    by (rule hex_tokens_sol_source) (simp add: list_all_iff)
  have e: "files (snd (main scenario_world)) OUTPUT_SOL
      = Some (sol_head
        @ concat (replicate 16 (lit ''hex'' @ [34] @ replicate 1024 48 @ [34] @ lit '' ''))
        @ concat (replicate 15 (lit ''hex'' @ [34] @ replicate 1024 102 @ [34] @ lit '' ''))
        @ lit ''hex'' @ [34] @ replicate 1024 102 @ [34] @ sol_tail)"
    unfolding o s ..
  have k: "map_option hex_tokens (files (snd (main scenario_world)) OUTPUT_SOL) = Some ?chunks"
    unfolding o by (simp add: t)
  show ?thesis
    unfolding scenario_parts
    using p w m k e
    by (simp add: join_Nil_sep list_all_iff sol_head_def sol_tail_def)
qed

text \<open>
  C2. The text a successful run prints, evaluated in the scenario: the line is the
  f-string's text with single braces, character for character, and not a line that names
  \<open>src/BasicRom.sol\<close> and 16384 bytes.
\<close>

theorem confirmation_message_is_literal:
  "fst (main scenario_world) = Inr ()
   \<and> stdout (snd (main scenario_world))
       = lit ''Generated {OUTPUT_SOL} ({len(combined) // 2} bytes)'' @ [10]
   \<and> stdout (snd (main scenario_world)) \<noteq> lit ''Generated src/BasicRom.sol (16384 bytes)'' @ [10]"
  by (simp add: main_scenario print_def write_text_def generated_message_def
        stdout_scenario lit_def)

end
